theory Spec2Isabelle
  imports Main "HOL-Library.Word"
begin

section \<open>The environment: clock, random source, strings\<close>

text \<open>
  The animation of \<^verbatim>\<open>cyclingchars.go\<close> reads two things from outside: the clock
  (\<^verbatim>\<open>time.Now()\<close>) and the global random source (\<^verbatim>\<open>rand.Intn\<close>,
  \<^verbatim>\<open>rand.Int31n\<close>). Both are modelled as streams held in a \<open>world\<close> that is passed
  through every function that reads them: the \<open>k\<close>-th call of \<^verbatim>\<open>time.Now()\<close>
  returns \<open>clock w k\<close>, the \<open>k\<close>-th draw returns \<open>rand_src w k\<close> reduced into the
  requested range.

  Instants and durations are nanosecond counts. \<^verbatim>\<open>start\<close> carries a monotonic
  reading, \<^verbatim>\<open>Add\<close> keeps it, and \<^verbatim>\<open>Before\<close>/\<^verbatim>\<open>After\<close> then compare monotonic
  readings, so the comparisons of the source are \<open><\<close> and \<open>>\<close> on integers. The
  delays the constructor produces are below two seconds; no overflow is in reach.

  A rune is Go's \<^verbatim>\<open>int32\<close>; the values that occur are code points and the
  sentinel \<open>-1\<close>, so \<open>int\<close> holds them exactly.
\<close>

type_synonym rune = int
type_synonym instant = int
type_synonym duration = int

record world =
  clock :: "nat \<Rightarrow> instant"
  clock_pos :: nat
  rand_src :: "nat \<Rightarrow> nat"
  rand_pos :: nat

definition time_Now :: "world \<Rightarrow> instant \<times> world" where
  "time_Now w = (clock w (clock_pos w), w\<lparr>clock_pos := Suc (clock_pos w)\<rparr>)"

text \<open>
  \<^verbatim>\<open>rand.Intn(n)\<close> and \<^verbatim>\<open>rand.Int31n(n)\<close> return a value in \<open>[0, n)\<close> and panic for
  \<open>n \<le> 0\<close>; every call of the source passes a positive constant (8, 5, and the
  length of the alphabet).
\<close>

definition rand_Intn :: "nat \<Rightarrow> world \<Rightarrow> nat \<times> world" where
  "rand_Intn n w = (rand_src w (rand_pos w) mod n, w\<lparr>rand_pos := Suc (rand_pos w)\<rparr>)"

definition rand_Int31n :: "nat \<Rightarrow> world \<Rightarrow> nat \<times> world" where
  "rand_Int31n n w = (rand_src w (rand_pos w) mod n, w\<lparr>rand_pos := Suc (rand_pos w)\<rparr>)"

subsection \<open>Strings and the conversion to runes\<close>

text \<open>
  A Go string is a byte sequence: \<open>string\<close> (a list of 8-bit characters), and
  \<^verbatim>\<open>len(str)\<close> is its \<open>length\<close>. The conversion \<^verbatim>\<open>[]rune(str)\<close> decodes UTF-8;
  a byte that starts no valid encoding becomes U+FFFD and is one byte wide.
\<close>

definition RuneError :: rune where
  "RuneError = 0xFFFD"

definition contByte :: "nat \<Rightarrow> bool" where
  "contByte b = (0x80 \<le> b \<and> b \<le> 0xBF)"

definition second3 :: "nat \<Rightarrow> nat \<Rightarrow> bool" where
  "second3 b0 b1 = (if b0 = 0xE0 then 0xA0 \<le> b1 \<and> b1 \<le> 0xBF
                    else if b0 = 0xED then 0x80 \<le> b1 \<and> b1 \<le> 0x9F
                    else contByte b1)"

definition second4 :: "nat \<Rightarrow> nat \<Rightarrow> bool" where
  "second4 b0 b1 = (if b0 = 0xF0 then 0x90 \<le> b1 \<and> b1 \<le> 0xBF
                    else if b0 = 0xF4 then 0x80 \<le> b1 \<and> b1 \<le> 0x8F
                    else contByte b1)"

fun decodeRune :: "nat list \<Rightarrow> rune \<times> nat" where
  "decodeRune [] = (RuneError, 0)"
| "decodeRune (b0 # bs) =
     (if b0 < 0x80 then (int b0, 1)
      else if 0xC2 \<le> b0 \<and> b0 \<le> 0xDF then
        (case bs of
           b1 # _ \<Rightarrow> if contByte b1 then (int ((b0 mod 32) * 64 + b1 mod 64), 2)
                     else (RuneError, 1)
         | _ \<Rightarrow> (RuneError, 1))
      else if 0xE0 \<le> b0 \<and> b0 \<le> 0xEF then
        (case bs of
           b1 # b2 # _ \<Rightarrow>
             if second3 b0 b1 \<and> contByte b2
             then (int ((b0 mod 16) * 4096 + (b1 mod 64) * 64 + b2 mod 64), 3)
             else (RuneError, 1)
         | _ \<Rightarrow> (RuneError, 1))
      else if 0xF0 \<le> b0 \<and> b0 \<le> 0xF4 then
        (case bs of
           b1 # b2 # b3 # _ \<Rightarrow>
             if second4 b0 b1 \<and> contByte b2 \<and> contByte b3
             then (int ((b0 mod 8) * 262144 + (b1 mod 64) * 4096 + (b2 mod 64) * 64
                        + b3 mod 64), 4)
             else (RuneError, 1)
         | _ \<Rightarrow> (RuneError, 1))
      else (RuneError, 1))"

function decodeAll :: "nat list \<Rightarrow> rune list" where
  "decodeAll [] = []"
| "decodeAll (b # bs) =
     fst (decodeRune (b # bs)) # decodeAll (drop (snd (decodeRune (b # bs)) - 1) bs)"
  by pat_completeness auto
termination
  by (relation "measure length") auto

definition runes :: "string \<Rightarrow> rune list" where
  "runes s = decodeAll (map of_char s)"

section \<open>A single cycling character\<close>

definition maxCyclingChars :: int where
  "maxCyclingChars = 120"

text \<open>
  The alphabet is the conversion of the source's literal; the pound sign and the euro
  sign are the two multi-byte characters of it.
\<close>

definition charRunes :: "rune list" where
  "charRunes = runes (''0123456789abcdefABCDEF~!@#$''
                      @ [CHR 0xC2, CHR 0xA3, CHR 0xE2, CHR 0x82, CHR 0xAC]
                      @ ''%^&*()+=_'')"

datatype charState = charInitialState | charCyclingState | charEndOfLifeState

record cyclingChar =
  finalValue :: rune
  currentValue :: rune
  initialDelay :: duration
  lifetime :: duration

definition randomRune :: "cyclingChar \<Rightarrow> world \<Rightarrow> rune \<times> world" where
  "randomRune c w = (let (k, w') = rand_Intn (length charRunes) w in (charRunes ! k, w'))"

text \<open>
  \<open>stateAt\<close> is the body of \<^verbatim>\<open>state\<close> after its first line, with the reading of
  the clock as an argument; \<open>state\<close> takes the reading from the world.
\<close>

definition stateAt :: "instant \<Rightarrow> instant \<Rightarrow> cyclingChar \<Rightarrow> charState" where
  "stateAt t0 now c =
     (if now < t0 + initialDelay c then charInitialState
      else if finalValue c > 0 \<and> now > t0 + initialDelay c then charEndOfLifeState
      else charCyclingState)"

definition state :: "cyclingChar \<Rightarrow> instant \<Rightarrow> world \<Rightarrow> charState \<times> world" where
  "state c t0 w = (let (now, w') = time_Now w in (stateAt t0 now c, w'))"

section \<open>The gradient ramp\<close>

datatype error = MakeSliceLenOutOfRange | IndexOutOfRange

text \<open>
  A \<^verbatim>\<open>lipgloss.Color\<close> is a string. The colour of position \<open>i\<close> in a ramp of
  \<open>length\<close> positions, \<^verbatim>\<open>start.BlendLuv(end, float64(i)/float64(length)).Hex()\<close>, is
  computed by the colour library in floating point; it is the parameter \<open>blend\<close>
  here, applied to \<open>i\<close> and \<open>length\<close>. \<^verbatim>\<open>make\<close> panics on a negative length.
\<close>

definition makeGradientRamp :: "(int \<Rightarrow> int \<Rightarrow> string) \<Rightarrow> int \<Rightarrow> error + string list" where
  "makeGradientRamp blend len =
     (if len < 0 then Inl MakeSliceLenOutOfRange
      else Inr (map (\<lambda>i. blend (int i) len) [0..<nat len]))"

text \<open>
  \<^verbatim>\<open>makeGradientText\<close>: \<open>render c r\<close> stands for
  \<^verbatim>\<open>baseStyle.Copy().Foreground(c).Render(string(r))\<close>. The loop runs over the ramp,
  whose length is the byte length of the string, and reads \<^verbatim>\<open>runes[i]\<close>.
\<close>

fun gradientLoop :: "(string \<Rightarrow> rune \<Rightarrow> string) \<Rightarrow> nat \<Rightarrow> string list \<Rightarrow> rune list \<Rightarrow> string
                     \<Rightarrow> error + string" where
  "gradientLoop render i [] rs b = Inr b"
| "gradientLoop render i (c # cs) rs b =
     (if i < length rs then gradientLoop render (Suc i) cs rs (b @ render c (rs ! i))
      else Inl IndexOutOfRange)"

definition makeGradientText :: "(int \<Rightarrow> int \<Rightarrow> string) \<Rightarrow> (string \<Rightarrow> rune \<Rightarrow> string) \<Rightarrow> string
                                \<Rightarrow> error + string" where
  "makeGradientText blend render str =
     (if length str < 3 then Inr str
      else case makeGradientRamp blend (int (length str)) of
             Inl e \<Rightarrow> Inl e
           | Inr rmp \<Rightarrow> gradientLoop render 0 rmp (runes str) [])"

section \<open>The controller\<close>

text \<open>
  The spinner of the ellipsis comes from a library: its model is the type parameter
  \<open>'sp\<close>. The field \<^verbatim>\<open>styles\<close> is read by \<^verbatim>\<open>View\<close> only and is left out. A style
  of the ramp is kept as its foreground colour.
\<close>

record 'sp cyclingChars =
  start :: instant
  chars :: "cyclingChar list"
  ramp :: "string list"
  label :: "rune list"
  ellipsis :: 'sp
  ellipsisStarted :: bool

definition makeDelay :: "nat \<Rightarrow> int \<Rightarrow> world \<Rightarrow> duration \<times> world" where
  "makeDelay a b w = (let (k, w') = rand_Int31n a w in (int k * (1000000 * b), w'))"

definition makeInitialDelay :: "world \<Rightarrow> duration \<times> world" where
  "makeInitialDelay w = makeDelay 8 60 w"

definition zeroChar :: cyclingChar where
  "zeroChar = \<lparr>finalValue = 0, currentValue = 0, initialDelay = 0, lifetime = 0\<rparr>"

text \<open>The loop \<^verbatim>\<open>for i := 0; i < n; i++\<close> that writes the characters cycling forever.\<close>

function foreverLoop :: "int \<Rightarrow> int \<Rightarrow> cyclingChar list \<Rightarrow> world
                         \<Rightarrow> error + cyclingChar list \<times> world" where
  "foreverLoop i n cs w =
     (if i < n then
        (if 0 \<le> i \<and> i < int (length cs) then
           foreverLoop (i + 1) n
             (cs[nat i := \<lparr>finalValue = - 1, currentValue = 0,
                            initialDelay = fst (makeInitialDelay w), lifetime = 0\<rparr>])
             (snd (makeInitialDelay w))
         else Inl IndexOutOfRange)
      else Inr (cs, w))"
  by pat_completeness auto
termination
  by (relation "measure (\<lambda>(i, n, cs, w). nat (n - i))") auto

text \<open>The loop over the runes of the label, writing at \<^verbatim>\<open>i+n\<close>.\<close>

fun labelLoop :: "int \<Rightarrow> int \<Rightarrow> rune list \<Rightarrow> cyclingChar list \<Rightarrow> world
                  \<Rightarrow> error + cyclingChar list \<times> world" where
  "labelLoop i n [] cs w = Inr (cs, w)"
| "labelLoop i n (r # rs) cs w =
     (let (d, w1) = makeInitialDelay w;
          (l, w2) = makeDelay 5 180 w1
      in if 0 \<le> i + n \<and> i + n < int (length cs) then
           labelLoop (i + 1) n rs
             (cs[nat (i + n) := \<lparr>finalValue = r, currentValue = 0,
                                  initialDelay = d, lifetime = l\<rparr>]) w2
         else Inl IndexOutOfRange)"

text \<open>
  \<^verbatim>\<open>newCyclingChars\<close>. The count is a \<^verbatim>\<open>uint\<close> (64 bits on the usual platforms) and
  \<^verbatim>\<open>int(initialCharsSize)\<close> reads the same bits as a signed number. \<open>trueColor\<close>
  is \<^verbatim>\<open>r.ColorProfile() == termenv.TrueColor\<close>, \<open>sp0\<close> the new spinner.
\<close>

definition newCyclingChars :: "(int \<Rightarrow> int \<Rightarrow> string) \<Rightarrow> bool \<Rightarrow> 'sp \<Rightarrow> 64 word \<Rightarrow> string \<Rightarrow> world
                               \<Rightarrow> error + 'sp cyclingChars \<times> world" where
  "newCyclingChars blend trueColor sp0 initialCharsSize lbl w =
     (let n0 = sint initialCharsSize;
          n = (if n0 > maxCyclingChars then maxCyclingChars else n0);
          gap = (if n = 0 then [] else '' '');
          (t0, w1) = time_Now w;
          lab = runes (gap @ lbl)
      in case (if n \<ge> 3 \<and> trueColor then makeGradientRamp blend n else Inr []) of
           Inl e \<Rightarrow> Inl e
         | Inr rmp \<Rightarrow>
             if n + int (length lab) < 0 then Inl MakeSliceLenOutOfRange
             else case foreverLoop 0 n (replicate (nat (n + int (length lab))) zeroChar) w1 of
                    Inl e \<Rightarrow> Inl e
                  | Inr (cs1, w2) \<Rightarrow>
                      (case labelLoop 0 n lab cs1 w2 of
                         Inl e \<Rightarrow> Inl e
                       | Inr (cs2, w3) \<Rightarrow>
                           Inr (\<lparr>start = t0, chars = cs2, ramp = rmp, label = lab,
                                 ellipsis = sp0, ellipsisStarted = False\<rparr>, w3)))"

subsection \<open>Update\<close>

datatype msg = stepCharsMsg | spinnerTickMsg | otherMsg

text \<open>
  The commands \<^verbatim>\<open>Update\<close> returns: the next step of the characters
  (\<^verbatim>\<open>stepChars()\<close>), the delayed first tick of the ellipsis, and whatever the
  spinner's own \<^verbatim>\<open>Update\<close> returns.
\<close>

datatype cmd = stepCharsCmd | ellipsisStartCmd | spinnerCmd

text \<open>The first loop of \<^verbatim>\<open>Update\<close>: every character gets its glyph.\<close>

fun stepLoop :: "instant \<Rightarrow> cyclingChar list \<Rightarrow> world \<Rightarrow> cyclingChar list \<times> world" where
  "stepLoop t0 [] w = ([], w)"
| "stepLoop t0 (char # rest) w =
     (let (st, w1) = state char t0 w;
          (char', w2) =
            (case st of
               charInitialState \<Rightarrow> (char\<lparr>currentValue := 46\<rparr>, w1)
             | charCyclingState \<Rightarrow>
                 (let (r, w2) = randomRune char w1 in (char\<lparr>currentValue := r\<rparr>, w2))
             | charEndOfLifeState \<Rightarrow> (char\<lparr>currentValue := finalValue char\<rparr>, w1));
          (rest', w3) = stepLoop t0 rest w2
      in (char' # rest', w3))"

text \<open>The second loop: the number of characters at the end of their life.\<close>

fun countEol :: "instant \<Rightarrow> cyclingChar list \<Rightarrow> nat \<Rightarrow> world \<Rightarrow> nat \<times> world" where
  "countEol t0 [] eol w = (eol, w)"
| "countEol t0 (char # rest) eol w =
     (let (st, w1) = state char t0 w
      in countEol t0 rest (if st = charEndOfLifeState then Suc eol else eol) w1)"

text \<open>
  \<open>spinnerUpdate\<close> is the spinner's \<^verbatim>\<open>Update\<close>: the new spinner, and whether it
  returned a command. The result lists the commands of the batch that are not nil.
\<close>

definition Update :: "('sp \<Rightarrow> 'sp \<times> bool) \<Rightarrow> msg \<Rightarrow> 'sp cyclingChars \<Rightarrow> world
                      \<Rightarrow> 'sp cyclingChars \<times> cmd list \<times> world" where
  "Update spinnerUpdate m c w =
     (case m of
        stepCharsMsg \<Rightarrow>
          (let (cs, w1) = stepLoop (start c) (chars c) w;
               c1 = c\<lparr>chars := cs\<rparr>
           in if \<not> ellipsisStarted c1 then
                (let (eol, w2) = countEol (start c1) (chars c1) 0 w1
                 in if eol = length (label c1)
                    then (c1\<lparr>ellipsisStarted := True\<rparr>, [stepCharsCmd, ellipsisStartCmd], w2)
                    else (c1, [stepCharsCmd], w2))
              else (c1, [stepCharsCmd], w1))
      | spinnerTickMsg \<Rightarrow>
          (let (sp, more) = spinnerUpdate (ellipsis c)
           in (c\<lparr>ellipsis := sp\<rparr>, (if more then [spinnerCmd] else []), w))
      | otherMsg \<Rightarrow> (c, [], w))"

text \<open>A sequence of messages, delivered one after the other.\<close>

fun run :: "('sp \<Rightarrow> 'sp \<times> bool) \<Rightarrow> msg list \<Rightarrow> 'sp cyclingChars \<times> world
            \<Rightarrow> 'sp cyclingChars \<times> world" where
  "run su [] s = s"
| "run su (m # ms) s =
     (case Update su m (fst s) (snd s) of (c', cmds, w') \<Rightarrow> run su ms (c', w'))"

text \<open>The commands returned for message \<open>k\<close> of the sequence.\<close>

definition cmdsAt :: "('sp \<Rightarrow> 'sp \<times> bool) \<Rightarrow> msg list \<Rightarrow> 'sp cyclingChars \<times> world \<Rightarrow> nat
                      \<Rightarrow> cmd list" where
  "cmdsAt su ms s k =
     (case run su (take k ms) s of (c, w) \<Rightarrow> fst (snd (Update su (ms ! k) c w)))"

section \<open>What a tick observes\<close>

text \<open>
  The characters written before the label: the controller keeps no count of them, it is
  the difference of the two lengths.
\<close>

definition placeholders :: "'sp cyclingChars \<Rightarrow> nat" where
  "placeholders c = length (chars c) - length (label c)"

text \<open>
  The shape the constructor gives a controller: the characters that cycle forever
  (final value \<open>-1\<close>) first, then one character for each rune of the label, in order.
\<close>

definition shaped :: "'sp cyclingChars \<Rightarrow> bool" where
  "shaped c = (length (label c) \<le> length (chars c)
               \<and> list_all (\<lambda>ch. finalValue ch = - 1) (take (placeholders c) (chars c))
               \<and> map finalValue (drop (placeholders c) (chars c)) = label c)"

text \<open>
  Every call of \<^verbatim>\<open>state\<close> reads the clock anew, so a loop over the characters sees
  character \<open>j\<close> at reading \<open>p + j\<close> when it starts at reading \<open>p\<close>. \<open>observed\<close>
  lists the states such a loop sees.
\<close>

definition observed :: "instant \<Rightarrow> (nat \<Rightarrow> instant) \<Rightarrow> nat \<Rightarrow> cyclingChar list \<Rightarrow> charState list" where
  "observed t0 clk p cs = map (\<lambda>(k, ch). stateAt t0 (clk k) ch) (enumerate p cs)"

text \<open>
  The first loop draws from the random source once for each character it finds cycling,
  in order. \<open>drawsBefore t0 clk p cs i\<close> is the number of draws made before the loop
  reaches character \<open>i\<close>: the number of characters before \<open>i\<close> that the loop sees
  cycling. It is a function of the clock and the characters, not of the random source.
\<close>

definition drawsBefore :: "instant \<Rightarrow> (nat \<Rightarrow> instant) \<Rightarrow> nat \<Rightarrow> cyclingChar list \<Rightarrow> nat \<Rightarrow> nat" where
  "drawsBefore t0 clk p cs i =
     length (filter (\<lambda>s. s = charCyclingState) (observed t0 clk p (take i cs)))"

text \<open>
  A step of the characters runs the first loop over all characters and then, when the
  ellipsis has not started, the second. \<open>labelResolved c w\<close>: the second loop of a step
  taken in world \<open>w\<close> sees every character of the label at the end of its life.
\<close>

definition labelResolved :: "'sp cyclingChars \<Rightarrow> world \<Rightarrow> bool" where
  "labelResolved c w =
     list_all (\<lambda>s. s = charEndOfLifeState)
       (observed (start c) (clock w) (clock_pos w + length (chars c) + placeholders c)
          (drop (placeholders c) (chars c)))"

text \<open>Message \<open>k\<close> of a sequence is a step of the characters that finds the label resolved.\<close>

definition resolvedAt :: "('sp \<Rightarrow> 'sp \<times> bool) \<Rightarrow> msg list \<Rightarrow> 'sp cyclingChars \<times> world \<Rightarrow> nat \<Rightarrow> bool" where
  "resolvedAt su ms s k =
     (ms ! k = stepCharsMsg \<and> (case run su (take k ms) s of (c, w) \<Rightarrow> labelResolved c w))"

text \<open>The flag after the first \<open>k\<close> messages of a sequence.\<close>

definition startedAfter :: "('sp \<Rightarrow> 'sp \<times> bool) \<Rightarrow> msg list \<Rightarrow> 'sp cyclingChars \<times> world \<Rightarrow> nat \<Rightarrow> bool" where
  "startedAfter su ms s k = ellipsisStarted (fst (run su (take k ms) s))"

text \<open>Two characters with the same final value and initial delay: \<^verbatim>\<open>state\<close> reads nothing else.\<close>

definition sameTiming :: "cyclingChar \<Rightarrow> cyclingChar \<Rightarrow> bool" where
  "sameTiming a b = (finalValue a = finalValue b \<and> initialDelay a = initialDelay b)"

section \<open>Concrete environments\<close>

text \<open>
  A world whose clock advances by one step of the animation (a twenty-second of a
  second) with every reading and whose random source always returns \<open>r\<close>, a spinner
  whose update does nothing, and a ramp of one colour.
\<close>

definition tickingWorld :: "nat \<Rightarrow> world" where
  "tickingWorld r = \<lparr>clock = (\<lambda>k. int k * 45454545), clock_pos = 0,
                      rand_src = (\<lambda>k. r), rand_pos = 0\<rparr>"

definition idleSpinner :: "unit \<Rightarrow> unit \<times> bool" where
  "idleSpinner u = (u, True)"

definition plainBlend :: "int \<Rightarrow> int \<Rightarrow> string" where
  "plainBlend i n = ''#F967DC''"

definition plainRender :: "string \<Rightarrow> rune \<Rightarrow> string" where
  "plainRender c r = c"

text \<open>
  Three controllers as the constructor returns them, each with the world it leaves behind:
  one placeholder and the label "Go" with all delays zero; the label "a" with the
  longest delay; a label that is one NUL byte.
\<close>

definition goController :: "unit cyclingChars" where
  "goController =
     \<lparr>start = 0,
      chars = [\<lparr>finalValue = - 1, currentValue = 0, initialDelay = 0, lifetime = 0\<rparr>,
               \<lparr>finalValue = 32, currentValue = 0, initialDelay = 0, lifetime = 0\<rparr>,
               \<lparr>finalValue = 71, currentValue = 0, initialDelay = 0, lifetime = 0\<rparr>,
               \<lparr>finalValue = 111, currentValue = 0, initialDelay = 0, lifetime = 0\<rparr>],
      ramp = [], label = [32, 71, 111], ellipsis = (), ellipsisStarted = False\<rparr>"

definition goWorld :: world where
  "goWorld = (tickingWorld 0)\<lparr>clock_pos := 1, rand_pos := 7\<rparr>"

definition slowController :: "unit cyclingChars" where
  "slowController =
     \<lparr>start = 0,
      chars = [\<lparr>finalValue = 97, currentValue = 0, initialDelay = 420000000,
                lifetime = 360000000\<rparr>],
      ramp = [], label = [97], ellipsis = (), ellipsisStarted = False\<rparr>"

definition slowWorld :: world where
  "slowWorld = (tickingWorld 7)\<lparr>clock_pos := 1, rand_pos := 2\<rparr>"

definition nulController :: "unit cyclingChars" where
  "nulController =
     \<lparr>start = 0,
      chars = [\<lparr>finalValue = 0, currentValue = 0, initialDelay = 0, lifetime = 0\<rparr>],
      ramp = [], label = [0], ellipsis = (), ellipsisStarted = False\<rparr>"

definition nulWorld :: world where
  "nulWorld = (tickingWorld 0)\<lparr>clock_pos := 1, rand_pos := 2\<rparr>"

text \<open>
  A world whose random source returns 0, 1, 2, ... and the controller the constructor
  returns in it for two placeholders and the empty label.
\<close>

definition countingWorld :: world where
  "countingWorld = \<lparr>clock = (\<lambda>k. int k * 45454545), clock_pos = 0,
                     rand_src = (\<lambda>k. k), rand_pos = 0\<rparr>"

definition pairController :: "unit cyclingChars" where
  "pairController =
     \<lparr>start = 0,
      chars = [\<lparr>finalValue = - 1, currentValue = 0, initialDelay = 0, lifetime = 0\<rparr>,
               \<lparr>finalValue = - 1, currentValue = 0, initialDelay = 60000000, lifetime = 0\<rparr>,
               \<lparr>finalValue = 32, currentValue = 0, initialDelay = 120000000,
                lifetime = 540000000\<rparr>],
      ramp = [], label = [32], ellipsis = (), ellipsisStarted = False\<rparr>"

definition pairWorld :: world where
  "pairWorld = countingWorld\<lparr>clock_pos := 1, rand_pos := 4\<rparr>"

section \<open>The alphabet\<close>

lemma charRunes_value:
  "charRunes = [48, 49, 50, 51, 52, 53, 54, 55, 56, 57, 97, 98, 99, 100, 101, 102, 65, 66,
     67, 68, 69, 70, 126, 33, 64, 35, 36, 163, 8364, 37, 94, 38, 42, 40, 41, 43, 61, 95]"
  by (simp add: charRunes_def runes_def contByte_def second3_def)

lemma length_charRunes: "length charRunes = 38"
  by (simp add: charRunes_value)

lemma distinct_charRunes: "distinct charRunes"
  by (simp add: charRunes_value)

section \<open>The constructor\<close>

declare foreverLoop.simps [simp del]

lemma runes_space: "runes (CHR '' '' # s) = 32 # runes s"
  by (simp add: runes_def)

lemma makeInitialDelay_world:
  "clock (snd (makeInitialDelay w)) = clock w"
  "clock_pos (snd (makeInitialDelay w)) = clock_pos w"
  by (simp_all add: makeInitialDelay_def makeDelay_def rand_Int31n_def)

lemma makeDelay_world:
  "clock (snd (makeDelay a b w)) = clock w"
  "clock_pos (snd (makeDelay a b w)) = clock_pos w"
  by (simp_all add: makeDelay_def rand_Int31n_def)

lemma foreverLoop_done: "\<not> i < n \<Longrightarrow> foreverLoop i n cs w = Inr (cs, w)"
  by (simp add: foreverLoop.simps)

lemma foreverLoop_ok:
  "0 \<le> i \<Longrightarrow> n \<le> int (length cs) \<Longrightarrow>
   \<exists>cs' w'. foreverLoop i n cs w = Inr (cs', w') \<and> length cs' = length cs
     \<and> clock w' = clock w \<and> clock_pos w' = clock_pos w
     \<and> (\<forall>j < length cs. if i \<le> int j \<and> int j < n
             then finalValue (cs' ! j) = - 1 else cs' ! j = cs ! j)"
proof (induction i n cs w rule: foreverLoop.induct)
  case (1 i n cs w)
  show ?case
  proof (cases "i < n")
    case False
    then show ?thesis by (simp add: foreverLoop_done)
  next
    case True
    let ?cs = "cs[nat i := \<lparr>finalValue = - 1, currentValue = 0,
                            initialDelay = fst (makeInitialDelay w), lifetime = 0\<rparr>]"
    let ?w = "snd (makeInitialDelay w)"
    from True "1.prems" have inr: "0 \<le> i \<and> i < int (length cs)" by simp
    from "1.IH" [OF True inr] "1.prems"
    obtain cs' w' where r: "foreverLoop (i + 1) n ?cs ?w = Inr (cs', w')"
      and l: "length cs' = length cs" and c: "clock w' = clock w" "clock_pos w' = clock_pos w"
      and e: "\<forall>j < length cs. if i + 1 \<le> int j \<and> int j < n
             then finalValue (cs' ! j) = - 1 else cs' ! j = ?cs ! j"
      by (auto simp: makeInitialDelay_world)
    have "foreverLoop i n cs w = Inr (cs', w')"
      using True inr r by (subst foreverLoop.simps) simp
    moreover have "\<forall>j < length cs. if i \<le> int j \<and> int j < n
             then finalValue (cs' ! j) = - 1 else cs' ! j = cs ! j"
    proof (intro allI impI)
      fix j assume j: "j < length cs"
      from e j have ej: "if i + 1 \<le> int j \<and> int j < n
             then finalValue (cs' ! j) = - 1 else cs' ! j = ?cs ! j" by blast
      show "if i \<le> int j \<and> int j < n then finalValue (cs' ! j) = - 1 else cs' ! j = cs ! j"
      proof (cases "int j = i")
        case True
        then have "j = nat i" by simp
        with ej j True \<open>i < n\<close> show ?thesis by (simp add: nth_list_update)
      next
        case False
        then have ne: "nat i \<noteq> j" using inr by auto
        with ej False show ?thesis by (auto simp: nth_list_update)
      qed
    qed
    ultimately show ?thesis using l c by simp
  qed
qed

lemma labelLoop_ok:
  "0 \<le> i + n \<Longrightarrow> i + n + int (length rs) \<le> int (length cs) \<Longrightarrow>
   \<exists>cs' w'. labelLoop i n rs cs w = Inr (cs', w') \<and> length cs' = length cs
     \<and> clock w' = clock w \<and> clock_pos w' = clock_pos w
     \<and> (\<forall>j < length cs. if i + n \<le> int j \<and> int j < i + n + int (length rs)
             then finalValue (cs' ! j) = rs ! (j - nat (i + n)) else cs' ! j = cs ! j)"
proof (induction rs arbitrary: i cs w)
  case Nil
  then show ?case by simp
next
  case (Cons r rs)
  obtain d w1 where d: "makeInitialDelay w = (d, w1)" by (cases "makeInitialDelay w")
  obtain l w2 where l: "makeDelay 5 180 w1 = (l, w2)" by (cases "makeDelay 5 180 w1")
  have cw: "clock w2 = clock w" "clock_pos w2 = clock_pos w"
    using makeInitialDelay_world [of w] makeDelay_world [of 5 180 w1] d l by simp_all
  let ?cs = "cs[nat (i + n) := \<lparr>finalValue = r, currentValue = 0,
                                  initialDelay = d, lifetime = l\<rparr>]"
  from Cons.prems have inr: "0 \<le> i + n \<and> i + n < int (length cs)" by simp
  have "0 \<le> (i + 1) + n" "(i + 1) + n + int (length rs) \<le> int (length ?cs)"
    using Cons.prems by simp_all
  from Cons.IH [OF this, of w2]
  obtain cs' w' where r: "labelLoop (i + 1) n rs ?cs w2 = Inr (cs', w')"
    and len: "length cs' = length cs" and c: "clock w' = clock w2" "clock_pos w' = clock_pos w2"
    and e: "\<forall>j < length cs. if (i + 1) + n \<le> int j \<and> int j < (i + 1) + n + int (length rs)
             then finalValue (cs' ! j) = rs ! (j - nat ((i + 1) + n)) else cs' ! j = ?cs ! j"
    by auto
  have "labelLoop i n (r # rs) cs w = Inr (cs', w')"
    using d l inr r by simp
  moreover have "\<forall>j < length cs. if i + n \<le> int j \<and> int j < i + n + int (length (r # rs))
             then finalValue (cs' ! j) = (r # rs) ! (j - nat (i + n)) else cs' ! j = cs ! j"
  proof (intro allI impI)
    fix j assume j: "j < length cs"
    from e j have ej: "if (i + 1) + n \<le> int j \<and> int j < (i + 1) + n + int (length rs)
             then finalValue (cs' ! j) = rs ! (j - nat ((i + 1) + n)) else cs' ! j = ?cs ! j"
      by blast
    show "if i + n \<le> int j \<and> int j < i + n + int (length (r # rs))
             then finalValue (cs' ! j) = (r # rs) ! (j - nat (i + n)) else cs' ! j = cs ! j"
    proof (cases "int j = i + n")
      case True
      then have "j = nat (i + n)" by simp
      with ej j True inr show ?thesis by (simp add: nth_list_update)
    next
      case False
      then have ne: "nat (i + n) \<noteq> j" using inr by auto
      show ?thesis
      proof (cases "i + n \<le> int j \<and> int j < i + n + int (length (r # rs))")
        case True
        with False have a: "(i + 1) + n \<le> int j \<and> int j < (i + 1) + n + int (length rs)" by simp
        with ej have "finalValue (cs' ! j) = rs ! (j - nat ((i + 1) + n))" by simp
        moreover have "j - nat (i + n) = Suc (j - nat ((i + 1) + n))" using a inr by linarith
        ultimately show ?thesis using True by simp
      next
        case False
        then have "\<not> ((i + 1) + n \<le> int j \<and> int j < (i + 1) + n + int (length rs))" by auto
        with ej ne False show ?thesis by (auto simp: nth_list_update)
      qed
    qed
  qed
  ultimately show ?case using len c cw by simp
qed


lemma bit_top_int:
  fixes x P :: int
  assumes "P = 2 ^ n" "0 \<le> x" "x < 2 * P"
  shows "bit x n \<longleftrightarrow> P \<le> x"
proof
  assume b: "bit x n"
  show "P \<le> x"
  proof (rule ccontr)
    assume "\<not> P \<le> x"
    then have "x div P = 0" using assms by (simp add: div_pos_pos_trivial)
    with b assms show False by (simp add: bit_iff_odd)
  qed
next
  assume h: "P \<le> x"
  have "(P + (x - P)) div P = (x - P) div P + 1"
    using assms by (subst div_add_self1) simp_all
  moreover have "(x - P) div P = 0" using assms h by (simp add: div_pos_pos_trivial)
  ultimately have "x div P = 1" by simp
  then show "bit x n" using assms by (simp add: bit_iff_odd)
qed

lemma sint_neg_iff: "sint (w :: 64 word) < 0 \<longleftrightarrow> 2 ^ 63 \<le> unat w"
proof -
  define P :: int where "P = 2 ^ 63"
  have P2: "2 * P = 2 ^ 64" by (simp add: P_def)
  have "uint w < 2 ^ 64" using uint_lt2p [of w] by simp
  then have up: "uint w < 2 * P" by (simp only: P2)
  have "sint w < 0 \<longleftrightarrow> bit w 63" using bit_last_iff [of w] by simp
  also have "\<dots> \<longleftrightarrow> bit (uint w) 63" by (simp add: bit_uint_iff)
  also have "\<dots> \<longleftrightarrow> P \<le> uint w"
    by (rule bit_top_int [OF P_def _ up]) simp
  also have "\<dots> \<longleftrightarrow> int (2 ^ 63) \<le> int (unat w)" by (simp add: P_def)
  also have "\<dots> \<longleftrightarrow> 2 ^ 63 \<le> unat w" by (simp only: of_nat_le_iff)
  finally show ?thesis .
qed

lemma newCyclingChars_negative:
  assumes "sint req < 0"
  shows "\<exists>e. newCyclingChars blend tc sp0 req lbl w = Inl e"
proof -
  let ?n = "sint req"
  let ?lab = "runes ('' '' @ lbl)"
  have lab: "?lab = 32 # runes lbl" by (simp add: runes_space)
  show ?thesis
  proof (cases "?n + int (length ?lab) < 0")
    case True
    with assms show ?thesis
      by (simp add: newCyclingChars_def maxCyclingChars_def time_Now_def Let_def split_def)
  next
    case False
    with assms show ?thesis
      by (simp add: newCyclingChars_def maxCyclingChars_def time_Now_def Let_def split_def
          foreverLoop_done runes_space)
  qed
qed

lemma newCyclingChars_ok:
  assumes "0 \<le> sint req"
  shows "\<exists>c w'. newCyclingChars blend tc sp0 req lbl w = Inr (c, w')
     \<and> start c = clock w (clock_pos w)
     \<and> label c = runes ((if min (sint req) 120 = 0 then [] else '' '') @ lbl)
     \<and> length (chars c) = nat (min (sint req) 120) + length (label c)
     \<and> (\<forall>j < nat (min (sint req) 120). finalValue (chars c ! j) = - 1)
     \<and> (\<forall>j < length (label c). finalValue (chars c ! (nat (min (sint req) 120) + j)) = label c ! j)
     \<and> \<not> ellipsisStarted c \<and> ellipsis c = sp0
     \<and> clock w' = clock w \<and> clock_pos w' = Suc (clock_pos w)"
proof -
  define n where "n = min (sint req) 120"
  define lab where "lab = runes ((if n = 0 then [] else '' '') @ lbl)"
  define w1 where "w1 = w\<lparr>clock_pos := Suc (clock_pos w)\<rparr>"
  define cs0 where "cs0 = replicate (nat (n + int (length lab))) zeroChar"
  have n0: "0 \<le> n" using assms by (simp add: n_def)
  have nn: "(if sint req > maxCyclingChars then maxCyclingChars else sint req) = n"
    by (simp add: n_def maxCyclingChars_def min_def)
  have "\<exists>rmp. (if n \<ge> 3 \<and> tc then makeGradientRamp blend n else Inr []) = Inr rmp"
    using n0 by (simp add: makeGradientRamp_def)
  then obtain rmp where rmp: "(if n \<ge> 3 \<and> tc then makeGradientRamp blend n else Inr []) = Inr rmp"
    by blast
  have l0: "length cs0 = nat n + length lab" using n0 by (simp add: cs0_def nat_add_distrib)
  from foreverLoop_ok [of 0 n cs0 w1] n0 l0
  obtain cs1 w2 where f: "foreverLoop 0 n cs0 w1 = Inr (cs1, w2)"
    and l1: "length cs1 = length cs0" and c1: "clock w2 = clock w1" "clock_pos w2 = clock_pos w1"
    and e1: "\<forall>j < length cs0. if 0 \<le> int j \<and> int j < n
             then finalValue (cs1 ! j) = - 1 else cs1 ! j = cs0 ! j"
    by auto
  from labelLoop_ok [of 0 n lab cs1 w2] n0 l0 l1
  obtain cs2 w3 where g: "labelLoop 0 n lab cs1 w2 = Inr (cs2, w3)"
    and l2: "length cs2 = length cs1" and c2: "clock w3 = clock w2" "clock_pos w3 = clock_pos w2"
    and e2: "\<forall>j < length cs1. if 0 + n \<le> int j \<and> int j < 0 + n + int (length lab)
             then finalValue (cs2 ! j) = lab ! (j - nat (0 + n)) else cs2 ! j = cs1 ! j"
    by auto
  let ?c = "\<lparr>start = clock w (clock_pos w), chars = cs2, ramp = rmp, label = lab,
             ellipsis = sp0, ellipsisStarted = False\<rparr>"
  have r: "newCyclingChars blend tc sp0 req lbl w = Inr (?c, w3)"
    unfolding newCyclingChars_def Let_def nn time_Now_def split_def fst_conv snd_conv
    using rmp f g n0 by (simp add: lab_def cs0_def w1_def)
  have a: "\<forall>j < nat n. finalValue (cs2 ! j) = - 1"
  proof (intro allI impI)
    fix j assume j: "j < nat n"
    then have jl: "j < length cs0" using l0 by simp
    from e2 jl l1 have "if 0 + n \<le> int j \<and> int j < 0 + n + int (length lab)
             then finalValue (cs2 ! j) = lab ! (j - nat (0 + n)) else cs2 ! j = cs1 ! j" by simp
    with j have "cs2 ! j = cs1 ! j" by (simp split: if_splits)
    moreover from e1 jl have "if 0 \<le> int j \<and> int j < n
             then finalValue (cs1 ! j) = - 1 else cs1 ! j = cs0 ! j" by blast
    with j have "finalValue (cs1 ! j) = - 1" by (simp split: if_splits)
    ultimately show "finalValue (cs2 ! j) = - 1" by simp
  qed
  have b: "\<forall>j < length lab. finalValue (cs2 ! (nat n + j)) = lab ! j"
  proof (intro allI impI)
    fix j assume j: "j < length lab"
    then have jl: "nat n + j < length cs1" using l0 l1 by simp
    from e2 jl have "if 0 + n \<le> int (nat n + j) \<and> int (nat n + j) < 0 + n + int (length lab)
             then finalValue (cs2 ! (nat n + j)) = lab ! ((nat n + j) - nat (0 + n))
             else cs2 ! (nat n + j) = cs1 ! (nat n + j)" by blast
    with j n0 show "finalValue (cs2 ! (nat n + j)) = lab ! j" by (simp split: if_splits)
  qed
  show ?thesis
    using r a b l0 l1 l2 c1 c2
    by (simp add: n_def [symmetric] lab_def [symmetric] w1_def)
qed

lemma shaped_new:
  assumes "newCyclingChars blend tc sp0 req lbl w = Inr (c, w')"
  shows "0 \<le> sint req" and "shaped c" and "\<not> ellipsisStarted c"
    and "placeholders c = nat (min (sint req) 120)"
    and "label c = runes ((if min (sint req) 120 = 0 then [] else '' '') @ lbl)"
    and "start c = clock w (clock_pos w)" and "clock w' = clock w"
    and "clock_pos w' = Suc (clock_pos w)"
proof -
  show p: "0 \<le> sint req"
    using newCyclingChars_negative [of req blend tc sp0 lbl w] assms by fastforce
  from newCyclingChars_ok [OF p, of blend tc sp0 lbl w] assms
  have lab: "label c = runes ((if min (sint req) 120 = 0 then [] else '' '') @ lbl)"
    and len: "length (chars c) = nat (min (sint req) 120) + length (label c)"
    and a: "\<forall>j < nat (min (sint req) 120). finalValue (chars c ! j) = - 1"
    and b: "\<forall>j < length (label c). finalValue (chars c ! (nat (min (sint req) 120) + j)) = label c ! j"
    and rest: "\<not> ellipsisStarted c" "start c = clock w (clock_pos w)" "clock w' = clock w"
      "clock_pos w' = Suc (clock_pos w)"
    by auto
  show "label c = runes ((if min (sint req) 120 = 0 then [] else '' '') @ lbl)" by (rule lab)
  show pl: "placeholders c = nat (min (sint req) 120)" using len by (simp add: placeholders_def)
  have "list_all (\<lambda>ch. finalValue ch = - 1) (take (placeholders c) (chars c))"
    using a len by (simp add: list_all_length pl)
  moreover have "map finalValue (drop (placeholders c) (chars c)) = label c"
    using b len by (intro nth_equalityI) (simp_all add: pl)
  ultimately show "shaped c" using len by (simp add: shaped_def)
  show "\<not> ellipsisStarted c" "start c = clock w (clock_pos w)" "clock w' = clock w"
      "clock_pos w' = Suc (clock_pos w)" using rest by simp_all
qed

text \<open>
  C5 (the code departs from the claim). The claim: for every requested count the
  constructor builds \<open>min requested 120\<close> placeholder characters. The comparison with
  120 is made after the conversion to \<^verbatim>\<open>int\<close>, so a count in the upper half of the
  unsigned range is a negative \<open>n\<close>, is not clamped, and the constructor panics: no
  controller and no placeholder character is built.
\<close>

theorem newCyclingChars_upper_half_panics:
  "2 ^ 63 \<le> unat req \<Longrightarrow> \<exists>e. newCyclingChars blend tc sp0 req lbl w = Inl e"
  by (rule newCyclingChars_negative) (simp add: sint_neg_iff)

theorem newCyclingChars_upper_half_panics_witness:
  "2 ^ 63 \<le> unat (2 ^ 63 :: 64 word)
   \<and> (\<exists>e. newCyclingChars plainBlend True () (2 ^ 63) ''Loading'' (tickingWorld 0) = Inl e)"
  using newCyclingChars_upper_half_panics [of "2 ^ 63" plainBlend True "()" "''Loading''" "tickingWorld 0"]
  by simp

text \<open>
  C8 (the code departs from the claim). The claim: construction returns normally for
  every count of the unsigned type. At the largest count, \<open>2^64 - 1\<close>, the conversion
  gives \<open>n = -1\<close>; the slice is made one shorter than the label, and the first write of
  the label loop, at index \<open>-1\<close>, panics.
\<close>

theorem newCyclingChars_max_count_panics:
  "newCyclingChars blend tc sp0 (- 1) ''Loading'' w = Inl IndexOutOfRange"
  by (simp add: newCyclingChars_def maxCyclingChars_def runes_def time_Now_def zeroChar_def
      makeInitialDelay_def makeDelay_def rand_Int31n_def Let_def split_def foreverLoop_done)

section \<open>The state of a character\<close>

text \<open>
  C2 (the code departs from the claim). The claim: a character whose final value is
  present is in the initial state before \<open>start + initialDelay\<close> and at the end of its
  life after it, whatever its lifetime. The struct says of \<^verbatim>\<open>finalValue\<close>:
  "if < 0 cycle forever", and \<^verbatim>\<open>View\<close> tests \<^verbatim>\<open>finalValue < 0\<close>; \<^verbatim>\<open>state\<close>
  tests \<^verbatim>\<open>finalValue > 0\<close>. A character whose final value is the rune 0 (a label
  with a NUL character) has a final value that is present, and is never at the end of
  its life, at any time and for any delay and lifetime.
\<close>

theorem state_rune_zero_never_end_of_life:
  "stateAt t0 now (c\<lparr>finalValue := 0\<rparr>) \<noteq> charEndOfLifeState"
  by (simp add: stateAt_def)

text \<open>
  Where the final value is positive the claim holds: before \<open>start + initialDelay\<close>
  the state is the initial one, after it the end of life, whatever the lifetime.
\<close>

lemma state_positive_rune:
  "0 < finalValue c \<Longrightarrow>
   (now < t0 + initialDelay c \<longrightarrow> stateAt t0 now (c\<lparr>lifetime := l\<rparr>) = charInitialState)
   \<and> (t0 + initialDelay c < now \<longrightarrow> stateAt t0 now (c\<lparr>lifetime := l\<rparr>) = charEndOfLifeState)"
  by (simp add: stateAt_def)

section \<open>Gradient text\<close>

lemma gradientLoop_short:
  "i \<le> length rs \<Longrightarrow> length rs < i + length cs \<Longrightarrow>
   gradientLoop render i cs rs b = Inl IndexOutOfRange"
  by (induction cs arbitrary: i b) auto

lemma gradientLoop_ok:
  "i + length cs \<le> length rs \<Longrightarrow> \<exists>out. gradientLoop render i cs rs b = Inr out"
  by (induction cs arbitrary: i b) auto

text \<open>
  A string shorter than three bytes is returned as it is, and a string of three bytes or
  more in which every rune is one byte is rendered.
\<close>

lemma makeGradientText_short: "length str < 3 \<Longrightarrow> makeGradientText blend render str = Inr str"
  by (simp add: makeGradientText_def)

lemma makeGradientText_single_bytes:
  "3 \<le> length str \<Longrightarrow> length (runes str) = length str \<Longrightarrow>
   \<exists>out. makeGradientText blend render str = Inr out"
  using gradientLoop_ok [of 0 "map (\<lambda>i. blend (int i) (int (length str))) [0..<length str]"
      "runes str" render "[]"]
  by (simp add: makeGradientText_def makeGradientRamp_def)

text \<open>
  C10 (the code departs from the claim). The claim: \<^verbatim>\<open>makeGradientText\<close> returns a
  string for every input, multi-byte runes included. The ramp has one colour for each
  byte of the string and the loop reads \<^verbatim>\<open>runes[i]\<close> for each colour: a string of
  three bytes or more with fewer runes than bytes (any string with a multi-byte rune)
  reads past the end of \<^verbatim>\<open>runes\<close> and panics.
\<close>

theorem makeGradientText_multibyte_panics:
  "3 \<le> length str \<Longrightarrow> length (runes str) < length str \<Longrightarrow>
   makeGradientText blend render str = Inl IndexOutOfRange"
  by (simp add: makeGradientText_def makeGradientRamp_def gradientLoop_short)

theorem makeGradientText_multibyte_panics_witness:
  "3 \<le> length [CHR 0xE2, CHR 0x82, CHR 0xAC]
   \<and> length (runes [CHR 0xE2, CHR 0x82, CHR 0xAC]) < length [CHR 0xE2, CHR 0x82, CHR 0xAC]
   \<and> makeGradientText plainBlend plainRender [CHR 0xE2, CHR 0x82, CHR 0xAC] = Inl IndexOutOfRange"
  using makeGradientText_multibyte_panics [of "[CHR 0xE2, CHR 0x82, CHR 0xAC]" plainBlend plainRender]
  by (simp add: runes_def contByte_def second3_def)

section \<open>The loops of a step\<close>

lemma state_eq:
  "state c t0 w = (stateAt t0 (clock w (clock_pos w)) c, w\<lparr>clock_pos := Suc (clock_pos w)\<rparr>)"
  by (simp add: state_def time_Now_def)

lemma stateAt_sameTiming: "sameTiming a b \<Longrightarrow> stateAt t0 now a = stateAt t0 now b"
  by (simp add: sameTiming_def stateAt_def)

lemma stateAt_forever: "finalValue ch \<le> 0 \<Longrightarrow> stateAt t0 now ch \<noteq> charEndOfLifeState"
  by (simp add: stateAt_def)

lemma stepLoop_world:
  "length (fst (stepLoop t0 cs w)) = length cs
   \<and> clock (snd (stepLoop t0 cs w)) = clock w
   \<and> clock_pos (snd (stepLoop t0 cs w)) = clock_pos w + length cs
   \<and> rand_src (snd (stepLoop t0 cs w)) = rand_src w
   \<and> rand_pos w \<le> rand_pos (snd (stepLoop t0 cs w))"
proof (induction cs arbitrary: w)
  case Nil
  show ?case by simp
next
  case (Cons ch cs)
  let ?w1 = "w\<lparr>clock_pos := Suc (clock_pos w)\<rparr>"
  show ?case
  proof (cases "stateAt t0 (clock w (clock_pos w)) ch")
    case charInitialState
    then show ?thesis using Cons.IH [of ?w1] by (simp add: state_eq split_def Let_def)
  next
    case charCyclingState
    then show ?thesis
      using Cons.IH [of "?w1\<lparr>rand_pos := Suc (rand_pos w)\<rparr>"]
      by (simp add: state_eq split_def Let_def randomRune_def rand_Intn_def)
  next
    case charEndOfLifeState
    then show ?thesis using Cons.IH [of ?w1] by (simp add: state_eq split_def Let_def)
  qed
qed

lemma sameTiming_update: "sameTiming ch (ch\<lparr>currentValue := x\<rparr>)"
  by (simp add: sameTiming_def)

lemma stepLoop_sameTiming: "list_all2 sameTiming cs (fst (stepLoop t0 cs w))"
proof (induction cs arbitrary: w)
  case Nil
  show ?case by simp
next
  case (Cons ch cs)
  show ?case
    by (cases "stateAt t0 (clock w (clock_pos w)) ch")
      (simp_all add: state_eq split_def Let_def randomRune_def rand_Intn_def Cons.IH sameTiming_update)
qed

lemma stepLoop_nth:
  "i < length cs \<Longrightarrow>
   \<exists>q \<ge> rand_pos w. fst (stepLoop t0 cs w) ! i =
     (cs ! i)\<lparr>currentValue :=
        (case stateAt t0 (clock w (clock_pos w + i)) (cs ! i) of
           charInitialState \<Rightarrow> 46
         | charCyclingState \<Rightarrow> charRunes ! (rand_src w q mod length charRunes)
         | charEndOfLifeState \<Rightarrow> finalValue (cs ! i))\<rparr>"
proof (induction cs arbitrary: w i)
  case Nil
  then show ?case by simp
next
  case (Cons ch cs)
  let ?w1 = "w\<lparr>clock_pos := Suc (clock_pos w)\<rparr>"
  show ?case
  proof (cases i)
    case 0
    show ?thesis
      by (cases "stateAt t0 (clock w (clock_pos w)) ch")
        (auto simp: 0 state_eq split_def Let_def randomRune_def rand_Intn_def)
  next
    case (Suc j)
    with Cons.prems have j: "j < length cs" by simp
    show ?thesis
    proof (cases "stateAt t0 (clock w (clock_pos w)) ch = charCyclingState")
      case True
      from Cons.IH [OF j, of "?w1\<lparr>rand_pos := Suc (rand_pos w)\<rparr>"]
      obtain q where "q \<ge> Suc (rand_pos w)"
        and "fst (stepLoop t0 cs (?w1\<lparr>rand_pos := Suc (rand_pos w)\<rparr>)) ! j =
          (cs ! j)\<lparr>currentValue :=
            (case stateAt t0 (clock w (Suc (clock_pos w) + j)) (cs ! j) of
               charInitialState \<Rightarrow> 46
             | charCyclingState \<Rightarrow> charRunes ! (rand_src w q mod length charRunes)
             | charEndOfLifeState \<Rightarrow> finalValue (cs ! j))\<rparr>"
        by (auto cong: charState.case_cong)
      then show ?thesis using True
        by (intro exI [of _ q]) (simp add: Suc state_eq split_def Let_def randomRune_def rand_Intn_def cong: charState.case_cong)
    next
      case False
      from Cons.IH [OF j, of ?w1]
      obtain q where "q \<ge> rand_pos w"
        and "fst (stepLoop t0 cs ?w1) ! j =
          (cs ! j)\<lparr>currentValue :=
            (case stateAt t0 (clock w (Suc (clock_pos w) + j)) (cs ! j) of
               charInitialState \<Rightarrow> 46
             | charCyclingState \<Rightarrow> charRunes ! (rand_src w q mod length charRunes)
             | charEndOfLifeState \<Rightarrow> finalValue (cs ! j))\<rparr>"
        by (auto cong: charState.case_cong)
      then show ?thesis using False
        by (intro exI [of _ q])
          (cases "stateAt t0 (clock w (clock_pos w)) ch";
            simp add: Suc state_eq split_def Let_def randomRune_def rand_Intn_def cong: charState.case_cong)
    qed
  qed
qed

lemma length_observed: "length (observed t0 clk p cs) = length cs"
  by (simp add: observed_def)

lemma observed_Nil: "observed t0 clk p [] = []"
  by (simp add: observed_def)

lemma observed_Cons:
  "observed t0 clk p (ch # cs) = stateAt t0 (clk p) ch # observed t0 clk (Suc p) cs"
  by (simp add: observed_def)

lemma observed_append:
  "observed t0 clk p (xs @ ys) = observed t0 clk p xs @ observed t0 clk (p + length xs) ys"
  by (induction xs arbitrary: p) (simp_all add: observed_Nil observed_Cons)

lemma observed_sameTiming:
  "list_all2 sameTiming cs cs' \<Longrightarrow> observed t0 clk p cs = observed t0 clk p cs'"
  by (induction cs cs' arbitrary: p rule: list_all2_induct)
    (simp_all add: observed_Nil observed_Cons stateAt_sameTiming)

lemma observed_forever:
  "list_all (\<lambda>ch. finalValue ch = - 1) cs \<Longrightarrow>
   filter (\<lambda>s. s = charEndOfLifeState) (observed t0 clk p cs) = []"
  by (induction cs arbitrary: p) (simp_all add: observed_Nil observed_Cons stateAt_forever)

lemma countEol_eq:
  "countEol t0 cs eol w =
     (eol + length (filter (\<lambda>s. s = charEndOfLifeState) (observed t0 (clock w) (clock_pos w) cs)),
      w\<lparr>clock_pos := clock_pos w + length cs\<rparr>)"
  by (induction cs arbitrary: eol w) (simp_all add: observed_Nil observed_Cons state_eq Let_def)

lemma filter_all_length: "length (filter P xs) = length xs \<longleftrightarrow> list_all P xs"
proof (induction xs)
  case Nil
  show ?case by simp
next
  case (Cons x xs)
  have "length (filter P xs) < Suc (length xs)" by (simp add: le_imp_less_Suc)
  then have "length (filter P xs) \<noteq> Suc (length xs)" by simp
  with Cons show ?case by (cases "P x") auto
qed

section \<open>Update and sequences of messages\<close>

lemma Update_step:
  "Update su stepCharsMsg c w =
     (if ellipsisStarted c
      then (c\<lparr>chars := fst (stepLoop (start c) (chars c) w)\<rparr>, [stepCharsCmd],
            snd (stepLoop (start c) (chars c) w))
      else if fst (countEol (start c) (fst (stepLoop (start c) (chars c) w)) 0
                     (snd (stepLoop (start c) (chars c) w))) = length (label c)
      then (c\<lparr>chars := fst (stepLoop (start c) (chars c) w), ellipsisStarted := True\<rparr>,
            [stepCharsCmd, ellipsisStartCmd],
            snd (countEol (start c) (fst (stepLoop (start c) (chars c) w)) 0
                   (snd (stepLoop (start c) (chars c) w))))
      else (c\<lparr>chars := fst (stepLoop (start c) (chars c) w)\<rparr>, [stepCharsCmd],
            snd (countEol (start c) (fst (stepLoop (start c) (chars c) w)) 0
                   (snd (stepLoop (start c) (chars c) w)))))"
  by (simp add: Update_def split_def Let_def)

lemma Update_spinner:
  "Update su spinnerTickMsg c w =
     (c\<lparr>ellipsis := fst (su (ellipsis c))\<rparr>,
      (if snd (su (ellipsis c)) then [spinnerCmd] else []), w)"
  by (simp add: Update_def split_def Let_def)

lemma Update_other: "Update su otherMsg c w = (c, [], w)"
  by (simp add: Update_def)

lemma Update_chars:
  "chars (fst (Update su stepCharsMsg c w)) = fst (stepLoop (start c) (chars c) w)"
  by (simp add: Update_step)

lemma sameTiming_refl: "list_all2 sameTiming cs cs"
  by (simp add: list_all2_refl sameTiming_def)

lemma sameTiming_finalValue:
  "list_all2 sameTiming cs cs' \<Longrightarrow> map finalValue cs' = map finalValue cs"
  by (induction cs cs' rule: list_all2_induct) (simp_all add: sameTiming_def)

lemma shaped_alt:
  "shaped c = (length (label c) \<le> length (chars c)
     \<and> list_all (\<lambda>v. v = - 1) (take (placeholders c) (map finalValue (chars c)))
     \<and> drop (placeholders c) (map finalValue (chars c)) = label c)"
  by (simp add: shaped_def list_all_iff take_map drop_map)

lemma shaped_cong:
  assumes "shaped c" "list_all2 sameTiming (chars c) (chars c')" "label c' = label c"
  shows "shaped c'"
proof -
  have "map finalValue (chars c') = map finalValue (chars c)"
    using assms(2) by (rule sameTiming_finalValue)
  moreover have "length (chars c') = length (chars c)"
    using assms(2) by (simp add: list_all2_lengthD)
  ultimately show ?thesis using assms(1,3) by (simp add: shaped_alt placeholders_def)
qed

lemma Update_keeps:
  "list_all2 sameTiming (chars c) (chars (fst (Update su m c w)))
   \<and> label (fst (Update su m c w)) = label c
   \<and> start (fst (Update su m c w)) = start c"
  by (cases m) (simp_all add: Update_step Update_spinner Update_other stepLoop_sameTiming sameTiming_refl)

lemma Update_shaped: "shaped c \<Longrightarrow> shaped (fst (Update su m c w))"
  using Update_keeps [of c su m w] by (auto intro: shaped_cong)

text \<open>The count of the second loop, for a shaped controller.\<close>

lemma second_loop_count:
  assumes "shaped c"
  shows "fst (countEol (start c) (fst (stepLoop (start c) (chars c) w)) 0
                (snd (stepLoop (start c) (chars c) w)))
         = length (filter (\<lambda>s. s = charEndOfLifeState)
             (observed (start c) (clock w) (clock_pos w + length (chars c) + placeholders c)
                (drop (placeholders c) (chars c))))"
proof -
  let ?p = "clock_pos w + length (chars c)"
  let ?np = "placeholders c"
  have "observed (start c) (clock w) ?p (fst (stepLoop (start c) (chars c) w))
        = observed (start c) (clock w) ?p (chars c)"
    by (rule observed_sameTiming [symmetric]) (rule stepLoop_sameTiming)
  also have "\<dots> = observed (start c) (clock w) ?p (take ?np (chars c) @ drop ?np (chars c))"
    by simp
  also have "\<dots> = observed (start c) (clock w) ?p (take ?np (chars c))
                  @ observed (start c) (clock w) (?p + ?np) (drop ?np (chars c))"
    by (simp only: observed_append) (simp add: placeholders_def)
  finally have "filter (\<lambda>s. s = charEndOfLifeState)
       (observed (start c) (clock w) ?p (fst (stepLoop (start c) (chars c) w)))
     = filter (\<lambda>s. s = charEndOfLifeState)
         (observed (start c) (clock w) (?p + ?np) (drop ?np (chars c)))"
    using assms by (simp add: shaped_def observed_forever)
  then show ?thesis by (simp add: countEol_eq stepLoop_world)
qed

lemma second_loop_resolved:
  assumes "shaped c"
  shows "fst (countEol (start c) (fst (stepLoop (start c) (chars c) w)) 0
                (snd (stepLoop (start c) (chars c) w))) = length (label c)
         \<longleftrightarrow> labelResolved c w"
proof -
  have "length (label c) = length (observed (start c) (clock w)
          (clock_pos w + length (chars c) + placeholders c) (drop (placeholders c) (chars c)))"
    using assms by (simp add: length_observed shaped_def placeholders_def)
  then show ?thesis
    by (simp only: second_loop_count [OF assms] labelResolved_def filter_all_length)
qed

lemma Update_flag:
  assumes "shaped c"
  shows "ellipsisStarted (fst (Update su m c w))
         \<longleftrightarrow> ellipsisStarted c \<or> (m = stepCharsMsg \<and> labelResolved c w)"
  using second_loop_resolved [OF assms, of w]
  by (cases m) (simp_all add: Update_step Update_spinner Update_other)

lemma Update_cmd:
  assumes "shaped c"
  shows "ellipsisStartCmd \<in> set (fst (snd (Update su m c w)))
         \<longleftrightarrow> \<not> ellipsisStarted c \<and> m = stepCharsMsg \<and> labelResolved c w"
  using second_loop_resolved [OF assms, of w]
  by (cases m) (simp_all add: Update_step Update_spinner Update_other)

lemma run_append: "run su (xs @ ys) s = run su ys (run su xs s)"
  by (induction xs arbitrary: s) (simp_all add: split_def)

lemma run_shaped: "shaped (fst s) \<Longrightarrow> shaped (fst (run su ms s))"
  by (induction ms arbitrary: s) (simp_all add: split_def Update_shaped)

lemma run_take_Suc:
  "k < length ms \<Longrightarrow>
   run su (take (Suc k) ms) s =
     (fst (Update su (ms ! k) (fst (run su (take k ms) s)) (snd (run su (take k ms) s))),
      snd (snd (Update su (ms ! k) (fst (run su (take k ms) s)) (snd (run su (take k ms) s)))))"
  by (simp add: take_Suc_conv_app_nth run_append split_def)

lemma started_Suc:
  assumes "shaped (fst s)" "k < length ms"
  shows "startedAfter su ms s (Suc k) \<longleftrightarrow> startedAfter su ms s k \<or> resolvedAt su ms s k"
  using Update_flag [OF run_shaped [OF assms(1), of su "take k ms"], where su = su
      and m = "ms ! k" and w = "snd (run su (take k ms) s)"] assms(2)
  by (simp add: startedAfter_def resolvedAt_def run_take_Suc split_def)

lemma cmd_at:
  assumes "shaped (fst s)"
  shows "ellipsisStartCmd \<in> set (cmdsAt su ms s k)
         \<longleftrightarrow> \<not> startedAfter su ms s k \<and> resolvedAt su ms s k"
  using Update_cmd [OF run_shaped [OF assms(1), of su "take k ms"], where su = su
      and m = "ms ! k" and w = "snd (run su (take k ms) s)"]
  by (simp add: startedAfter_def resolvedAt_def cmdsAt_def split_def)

lemma started_iff:
  assumes "shaped (fst s)" "\<not> ellipsisStarted (fst s)"
  shows "k \<le> length ms \<Longrightarrow> startedAfter su ms s k \<longleftrightarrow> (\<exists>j<k. resolvedAt su ms s j)"
proof (induction k)
  case 0
  show ?case using assms(2) by (simp add: startedAfter_def)
next
  case (Suc k)
  then have k: "k < length ms" by simp
  show ?case
    using started_Suc [OF assms(1) k, of su] Suc.IH k by (auto simp: less_Suc_eq)
qed

section \<open>The concrete controllers\<close>

lemmas eval_defs = newCyclingChars_def maxCyclingChars_def runes_def time_Now_def zeroChar_def
  makeInitialDelay_def makeDelay_def rand_Int31n_def Let_def split_def foreverLoop.simps
  tickingWorld_def

lemmas step_defs = tickingWorld_def Update_step state_eq stateAt_def randomRune_def rand_Intn_def
  Let_def charRunes_value startedAfter_def resolvedAt_def cmdsAt_def labelResolved_def
  observed_def placeholders_def

lemma replicate_4: "replicate 4 x = [x, x, x, x]"
  by (simp add: numeral_eq_Suc)

lemma newCyclingChars_go:
  "newCyclingChars plainBlend False () 1 ''Go'' (tickingWorld 0) = Inr (goController, goWorld)"
  by (simp add: eval_defs goController_def goWorld_def replicate_4)

lemma newCyclingChars_slow:
  "newCyclingChars plainBlend False () 0 ''a'' (tickingWorld 7) = Inr (slowController, slowWorld)"
  by (simp add: eval_defs slowController_def slowWorld_def)

lemma newCyclingChars_nul:
  "newCyclingChars plainBlend False () 0 [CHR 0x00] (tickingWorld 0) = Inr (nulController, nulWorld)"
  by (simp add: eval_defs nulController_def nulWorld_def)

section \<open>The glyph a step writes\<close>

text \<open>
  In one step of the characters the first loop calls \<^verbatim>\<open>state\<close> once for each
  character, so character \<open>i\<close> is judged at reading \<open>clock_pos w + i\<close> of the clock
  when the step starts in world \<open>w\<close>. The elapsed time of the claims is that reading
  minus \<open>start c\<close>.
\<close>

text \<open>
  C1, as stated, fails: the alphabet \<^verbatim>\<open>charRunes\<close> has 38 runes, not 40 (22 hexadecimal
  digits in both cases and 16 symbols; as bytes the literal is 41 long).
\<close>

theorem charRunes_length_not_40: "length charRunes \<noteq> 40"
  by (simp add: length_charRunes)

text \<open>
  The glyph of character \<open>i\<close>, exactly: the first loop reaches the character after
  \<open>drawsBefore\<close> draws, and a cycling character gets the rune at the index of the next
  draw.
\<close>

lemma replicate_3: "replicate 3 x = [x, x, x]"
  by (simp add: numeral_eq_Suc)

lemma newCyclingChars_pair:
  "newCyclingChars plainBlend False () 2 [] countingWorld = Inr (pairController, pairWorld)"
  by (simp add: eval_defs pairController_def pairWorld_def countingWorld_def replicate_3)

lemma drawsBefore_0: "drawsBefore t0 clk p cs 0 = 0"
  by (simp add: drawsBefore_def observed_Nil)

lemma drawsBefore_Suc:
  "drawsBefore t0 clk p (ch # cs) (Suc j) =
     (if stateAt t0 (clk p) ch = charCyclingState then 1 else 0) + drawsBefore t0 clk (Suc p) cs j"
  by (simp add: drawsBefore_def observed_Cons)

lemma stepLoop_nth_exact:
  "i < length cs \<Longrightarrow>
   fst (stepLoop t0 cs w) ! i =
     (cs ! i)\<lparr>currentValue :=
        (case stateAt t0 (clock w (clock_pos w + i)) (cs ! i) of
           charInitialState \<Rightarrow> 46
         | charCyclingState \<Rightarrow>
             charRunes ! (rand_src w (rand_pos w + drawsBefore t0 (clock w) (clock_pos w) cs i)
                          mod length charRunes)
         | charEndOfLifeState \<Rightarrow> finalValue (cs ! i))\<rparr>"
proof (induction cs arbitrary: w i)
  case Nil
  then show ?case by simp
next
  case (Cons ch cs)
  let ?w1 = "w\<lparr>clock_pos := Suc (clock_pos w)\<rparr>"
  show ?case
  proof (cases i)
    case 0
    show ?thesis
      by (cases "stateAt t0 (clock w (clock_pos w)) ch")
        (simp_all add: 0 state_eq Let_def split_def randomRune_def rand_Intn_def drawsBefore_0)
  next
    case (Suc j)
    with Cons.prems have j: "j < length cs" by simp
    show ?thesis
    proof (cases "stateAt t0 (clock w (clock_pos w)) ch = charCyclingState")
      case True
      from Cons.IH [OF j, of "?w1\<lparr>rand_pos := Suc (rand_pos w)\<rparr>"]
      have "fst (stepLoop t0 cs (?w1\<lparr>rand_pos := Suc (rand_pos w)\<rparr>)) ! j =
          (cs ! j)\<lparr>currentValue :=
            (case stateAt t0 (clock w (Suc (clock_pos w) + j)) (cs ! j) of
               charInitialState \<Rightarrow> 46
             | charCyclingState \<Rightarrow>
                 charRunes ! (rand_src w (Suc (rand_pos w)
                     + drawsBefore t0 (clock w) (Suc (clock_pos w)) cs j) mod length charRunes)
             | charEndOfLifeState \<Rightarrow> finalValue (cs ! j))\<rparr>"
        by (simp cong: charState.case_cong)
      then show ?thesis using True
        by (simp add: Suc state_eq split_def Let_def randomRune_def rand_Intn_def
            drawsBefore_Suc cong: charState.case_cong)
    next
      case False
      from Cons.IH [OF j, of ?w1]
      have "fst (stepLoop t0 cs ?w1) ! j =
          (cs ! j)\<lparr>currentValue :=
            (case stateAt t0 (clock w (Suc (clock_pos w) + j)) (cs ! j) of
               charInitialState \<Rightarrow> 46
             | charCyclingState \<Rightarrow>
                 charRunes ! (rand_src w (rand_pos w
                     + drawsBefore t0 (clock w) (Suc (clock_pos w)) cs j) mod length charRunes)
             | charEndOfLifeState \<Rightarrow> finalValue (cs ! j))\<rparr>"
        by (simp cong: charState.case_cong)
      then show ?thesis using False
        by (cases "stateAt t0 (clock w (clock_pos w)) ch";
            simp add: Suc state_eq split_def Let_def randomRune_def rand_Intn_def
              drawsBefore_Suc cong: charState.case_cong)
    qed
  qed
qed

lemma charRunes_bij:
  "bij_betw (\<lambda>k. charRunes ! k) {..<length charRunes} (set charRunes)"
  using distinct_charRunes by (rule bij_betw_nth) simp_all

text \<open>
  C1, amended: for every character with no final value (\<open>finalValue < 0\<close>) whose
  elapsed time has reached \<open>initialDelay\<close>, the glyph a step writes is the result of
  the character's one call of \<^verbatim>\<open>randomRune\<close>, made in the world the loop has reached
  (the draws before it depend on the clock and the characters only): the rune
  \<open>charRunes ! k\<close> for the one index \<open>k\<close> that \<^verbatim>\<open>rand.Intn(len(charRunes))\<close> returns
  there, with \<open>k\<close> below the length. The alphabet is fixed, has 38 runes, none
  repeated, and \<open>k \<mapsto> charRunes ! k\<close> is a bijection from the indices below 38 to
  the alphabet: the pick is as uniform over the alphabet as the library's draw is
  over the indices.
\<close>

theorem cycling_glyph_from_alphabet:
  assumes "i < length (chars c)" and "finalValue (chars c ! i) < 0"
    and "start c + initialDelay (chars c ! i) \<le> clock w (clock_pos w + i)"
  shows "currentValue (chars (fst (Update su stepCharsMsg c w)) ! i)
           = fst (randomRune (chars c ! i)
                   (w\<lparr>rand_pos := rand_pos w
                          + drawsBefore (start c) (clock w) (clock_pos w) (chars c) i\<rparr>))
     \<and> currentValue (chars (fst (Update su stepCharsMsg c w)) ! i)
           = charRunes ! fst (rand_Intn (length charRunes)
                   (w\<lparr>rand_pos := rand_pos w
                          + drawsBefore (start c) (clock w) (clock_pos w) (chars c) i\<rparr>))
     \<and> fst (rand_Intn (length charRunes)
                   (w\<lparr>rand_pos := rand_pos w
                          + drawsBefore (start c) (clock w) (clock_pos w) (chars c) i\<rparr>))
           < length charRunes
     \<and> currentValue (chars (fst (Update su stepCharsMsg c w)) ! i) \<in> set charRunes
     \<and> length charRunes = 38 \<and> distinct charRunes
     \<and> bij_betw (\<lambda>k. charRunes ! k) {..<length charRunes} (set charRunes)"
proof -
  let ?w = "w\<lparr>rand_pos := rand_pos w
                + drawsBefore (start c) (clock w) (clock_pos w) (chars c) i\<rparr>"
  let ?k = "fst (rand_Intn (length charRunes) ?w)"
  have st: "stateAt (start c) (clock w (clock_pos w + i)) (chars c ! i) = charCyclingState"
    using assms(2,3) by (simp add: stateAt_def)
  have k: "?k = rand_src w (rand_pos w
                + drawsBefore (start c) (clock w) (clock_pos w) (chars c) i) mod length charRunes"
    by (simp add: rand_Intn_def)
  have g: "currentValue (chars (fst (Update su stepCharsMsg c w)) ! i) = charRunes ! ?k"
    by (simp only: Update_chars stepLoop_nth_exact [OF assms(1)] st k) simp
  have r: "fst (randomRune (chars c ! i) ?w) = charRunes ! ?k"
    by (simp add: randomRune_def split_def Let_def)
  have lt: "?k < length charRunes" unfolding k by (simp add: length_charRunes)
  then have m: "charRunes ! ?k \<in> set charRunes" by (rule nth_mem)
  show ?thesis
    using g r lt m length_charRunes distinct_charRunes charRunes_bij by simp
qed

text \<open>
  The second placeholder of a controller with two, at its first step: one draw was made
  before it, and it shows the rune at the index of its own draw.
\<close>

theorem cycling_glyph_from_alphabet_witness:
  "newCyclingChars plainBlend False () 2 [] countingWorld = Inr (pairController, pairWorld)
   \<and> 1 < length (chars pairController) \<and> finalValue (chars pairController ! 1) < 0
   \<and> start pairController + initialDelay (chars pairController ! 1)
        \<le> clock pairWorld (clock_pos pairWorld + 1)
   \<and> drawsBefore (start pairController) (clock pairWorld) (clock_pos pairWorld)
        (chars pairController) 1 = 1
   \<and> currentValue (chars (fst (Update idleSpinner stepCharsMsg pairController pairWorld)) ! 1)
        = charRunes ! 5
   \<and> currentValue (chars (fst (Update idleSpinner stepCharsMsg pairController pairWorld)) ! 1)
        = 53"
proof -
  have d: "drawsBefore (start pairController) (clock pairWorld) (clock_pos pairWorld)
        (chars pairController) 1 = 1"
    by (simp add: drawsBefore_def observed_def stateAt_def pairController_def pairWorld_def
        countingWorld_def)
  from cycling_glyph_from_alphabet [of 1 pairController pairWorld idleSpinner] d
    newCyclingChars_pair
  show ?thesis
    by (simp add: pairController_def pairWorld_def countingWorld_def rand_Intn_def
        charRunes_value)
qed

text \<open>
  C3 (the code departs from the claim). The claim: once the elapsed time exceeds
  \<open>initialDelay\<close>, every step sets \<open>currentValue\<close> of a character with a final value
  to that final value. A label character whose rune is 0 has a final value (it is not
  negative), yet every step after its delay writes a random glyph of the alphabet, never
  the final value: the test \<^verbatim>\<open>finalValue > 0\<close> of \<^verbatim>\<open>state\<close> leaves it cycling. The
  defect is the one of C2.
\<close>

theorem nul_rune_keeps_cycling:
  assumes "i < length (chars c)" and "finalValue (chars c ! i) = 0"
    and "start c + initialDelay (chars c ! i) < clock w (clock_pos w + i)"
  shows "currentValue (chars (fst (Update su stepCharsMsg c w)) ! i) \<in> set charRunes
     \<and> currentValue (chars (fst (Update su stepCharsMsg c w)) ! i) \<noteq> finalValue (chars c ! i)"
proof -
  have st: "stateAt (start c) (clock w (clock_pos w + i)) (chars c ! i) = charCyclingState"
    using assms(2,3) by (simp add: stateAt_def)
  from stepLoop_nth [OF assms(1), of w "start c"] st
  obtain q where e: "fst (stepLoop (start c) (chars c) w) ! i
            = (chars c ! i)\<lparr>currentValue := charRunes ! (rand_src w q mod length charRunes)\<rparr>"
    by auto
  have g: "currentValue (chars (fst (Update su stepCharsMsg c w)) ! i)
           = charRunes ! (rand_src w q mod length charRunes)"
    by (simp add: Update_chars e)
  have "rand_src w q mod length charRunes < length charRunes"
    by (simp add: length_charRunes)
  then have m: "charRunes ! (rand_src w q mod length charRunes) \<in> set charRunes"
    by (rule nth_mem)
  have "0 \<notin> set charRunes" by (simp add: charRunes_value)
  with m g assms(2) show ?thesis by auto
qed

text \<open>The controller built for the label of one NUL byte shows "0" at every step.\<close>

theorem nul_rune_keeps_cycling_witness:
  "newCyclingChars plainBlend False () 0 [CHR 0x00] (tickingWorld 0) = Inr (nulController, nulWorld)
   \<and> 0 < length (chars nulController) \<and> finalValue (chars nulController ! 0) = 0
   \<and> start nulController + initialDelay (chars nulController ! 0)
        < clock nulWorld (clock_pos nulWorld + 0)
   \<and> currentValue (chars (fst (Update idleSpinner stepCharsMsg nulController nulWorld)) ! 0)
        \<noteq> finalValue (chars nulController ! 0)
   \<and> map currentValue (chars (fst (run idleSpinner [stepCharsMsg, stepCharsMsg, stepCharsMsg]
          (nulController, nulWorld)))) = [48]"
proof -
  have "map currentValue (chars (fst (run idleSpinner [stepCharsMsg, stepCharsMsg, stepCharsMsg]
          (nulController, nulWorld)))) = [48]"
    by (simp add: step_defs nulController_def nulWorld_def)
  then show ?thesis
    using nul_rune_keeps_cycling [of 0 nulController nulWorld idleSpinner] newCyclingChars_nul
    by (simp add: nulController_def nulWorld_def tickingWorld_def)
qed

text \<open>
  Where the final value is positive the claim holds: every step whose reading for the
  character is past the delay writes the final value.
\<close>

lemma positive_rune_settles:
  assumes "i < length (chars c)" and "0 < finalValue (chars c ! i)"
    and "start c + initialDelay (chars c ! i) < clock w (clock_pos w + i)"
  shows "currentValue (chars (fst (Update su stepCharsMsg c w)) ! i) = finalValue (chars c ! i)"
proof -
  have st: "stateAt (start c) (clock w (clock_pos w + i)) (chars c ! i) = charEndOfLifeState"
    using assms(2,3) by (simp add: stateAt_def)
  from stepLoop_nth [OF assms(1), of w "start c"] st
  obtain q where e: "fst (stepLoop (start c) (chars c) w) ! i
            = (chars c ! i)\<lparr>currentValue := finalValue (chars c ! i)\<rparr>"
    by auto
  show ?thesis by (simp add: Update_chars e)
qed

section \<open>What the constructor builds\<close>

lemma sint_nonneg:
  assumes "0 \<le> sint (w :: 64 word)"
  shows "sint w = int (unat w)"
proof -
  from assms have "\<not> 2 ^ 63 \<le> unat w" by (simp only: sint_neg_iff [symmetric] not_less)
  then have "int (unat w) < int (2 ^ 63)" by (simp only: of_nat_less_iff not_le)
  then have u: "uint w < 2 ^ 63" by simp
  have l: "- (2 ^ 63) \<le> uint w"
  proof -
    have "- (2 ^ 63) \<le> (0::int)" by simp
    also have "0 \<le> uint w" by simp
    finally show ?thesis .
  qed
  have "sint w = signed_take_bit 63 (uint w)" by (simp add: sint_uint)
  also have "\<dots> = uint w" using l u by (rule signed_take_bit_int_eq_self)
  finally show ?thesis by simp
qed

lemma clamp_count:
  assumes "0 \<le> sint (req :: 64 word)"
  shows "nat (min (sint req) 120) = min (unat req) 120"
proof -
  have "\<And>n :: nat. nat (min (int n) 120) = min n 120" by linarith
  then show ?thesis by (simp only: sint_nonneg [OF assms])
qed


text \<open>
  Counts below \<open>2^63\<close> are clamped to 120 and construction returns; 500 gives 120
  placeholders.
\<close>

lemma newCyclingChars_clamps:
  assumes "unat req < 2 ^ 63"
  shows "\<exists>c w'. newCyclingChars blend tc sp0 req lbl w = Inr (c, w')
           \<and> placeholders c = min (unat req) 120"
proof -
  from assms have p: "0 \<le> sint req" using sint_neg_iff [of req] by simp
  from newCyclingChars_ok [OF p, of blend tc sp0 lbl w]
  obtain c w' where n: "newCyclingChars blend tc sp0 req lbl w = Inr (c, w')" by blast
  from shaped_new(4) [OF n] clamp_count [OF p] n show ?thesis by simp
qed

lemma newCyclingChars_500:
  "\<exists>c w'. newCyclingChars blend tc sp0 500 lbl w = Inr (c, w') \<and> placeholders c = 120"
  using newCyclingChars_clamps [of 500 blend tc sp0 lbl w] by simp



section \<open>Placeholders and the count of the second loop\<close>

lemma sameTiming_trans:
  "list_all2 sameTiming xs ys \<Longrightarrow> list_all2 sameTiming ys zs \<Longrightarrow> list_all2 sameTiming xs zs"
  using list_all2_trans [of sameTiming sameTiming sameTiming xs ys zs]
  by (auto simp: sameTiming_def)

lemma run_keeps:
  "list_all2 sameTiming (chars (fst s)) (chars (fst (run su ms s)))
   \<and> label (fst (run su ms s)) = label (fst s)
   \<and> start (fst (run su ms s)) = start (fst s)"
proof (induction ms arbitrary: s)
  case Nil
  show ?case by (simp add: sameTiming_refl)
next
  case (Cons m ms)
  let ?s = "(fst (Update su m (fst s) (snd s)), snd (snd (Update su m (fst s) (snd s))))"
  have r: "run su (m # ms) s = run su ms ?s" by (simp add: split_def)
  from Cons.IH [of ?s] Update_keeps [of "fst s" su m "snd s"]
  show ?case unfolding r by (auto intro: sameTiming_trans)
qed

lemma run_placeholders: "placeholders (fst (run su ms s)) = placeholders (fst s)"
  using run_keeps [of s su ms] by (auto simp: placeholders_def dest: list_all2_lengthD)

text \<open>
  C9: a character whose final value is the sentinel \<open>-1\<close> is at the end of its life at
  no time. For a controller the constructor returned, after any sequence of messages,
  the first \<open>placeholders c\<close> characters carry the sentinel, so the count the second
  loop makes over all characters (started in any world \<open>w'\<close>) is the count over the
  label characters alone, each judged at the same reading of the clock; and that count
  equals \<^verbatim>\<open>len(c.label)\<close> exactly when every label character is at the end of its life.
\<close>

theorem placeholder_never_end_of_life:
  assumes "newCyclingChars blend tc sp0 req lbl w0 = Inr (c0, w1)"
    and "run su ms (c0, w1) = (c, w)"
  shows "stateAt t now (ch\<lparr>finalValue := - 1\<rparr>) \<noteq> charEndOfLifeState
     \<and> placeholders c = min (unat req) 120
     \<and> list_all (\<lambda>ch. finalValue ch = - 1) (take (placeholders c) (chars c))
     \<and> fst (countEol (start c) (chars c) 0 w')
         = fst (countEol (start c) (drop (placeholders c) (chars c)) 0
                  (w'\<lparr>clock_pos := clock_pos w' + placeholders c\<rparr>))
     \<and> (fst (countEol (start c) (chars c) 0 w') = length (label c)
          \<longleftrightarrow> list_all (\<lambda>s. s = charEndOfLifeState)
                (observed (start c) (clock w') (clock_pos w' + placeholders c)
                   (drop (placeholders c) (chars c))))"
proof -
  note s = shaped_new [OF assms(1)]
  have c: "c = fst (run su ms (c0, w1))" using assms(2) by simp
  have sh: "shaped c" unfolding c using s(2) by (intro run_shaped) simp
  have pl: "placeholders c = min (unat req) 120"
    unfolding c using s(4) clamp_count [OF s(1)] by (simp add: run_placeholders)
  let ?np = "placeholders c"
  let ?obs = "observed (start c) (clock w')"
  have fv: "list_all (\<lambda>ch. finalValue ch = - 1) (take ?np (chars c))"
    using sh by (simp add: shaped_def)
  have "?obs (clock_pos w') (chars c) = ?obs (clock_pos w') (take ?np (chars c) @ drop ?np (chars c))"
    by simp
  also have "\<dots> = ?obs (clock_pos w') (take ?np (chars c))
                  @ ?obs (clock_pos w' + ?np) (drop ?np (chars c))"
    by (simp only: observed_append) (simp add: placeholders_def)
  finally have f: "filter (\<lambda>s. s = charEndOfLifeState) (?obs (clock_pos w') (chars c))
      = filter (\<lambda>s. s = charEndOfLifeState) (?obs (clock_pos w' + ?np) (drop ?np (chars c)))"
    using fv by (simp add: observed_forever)
  have cnt: "fst (countEol (start c) (chars c) 0 w')
         = length (filter (\<lambda>s. s = charEndOfLifeState)
                     (?obs (clock_pos w' + ?np) (drop ?np (chars c))))"
    by (simp add: countEol_eq f)
  have eq: "fst (countEol (start c) (chars c) 0 w')
         = fst (countEol (start c) (drop ?np (chars c)) 0
                  (w'\<lparr>clock_pos := clock_pos w' + ?np\<rparr>))"
    by (simp add: cnt) (simp add: countEol_eq)
  have "length (label c) = length (?obs (clock_pos w' + ?np) (drop ?np (chars c)))"
    using sh by (simp add: length_observed shaped_def placeholders_def)
  then have iff: "fst (countEol (start c) (chars c) 0 w') = length (label c)
          \<longleftrightarrow> list_all (\<lambda>s. s = charEndOfLifeState)
                (?obs (clock_pos w' + ?np) (drop ?np (chars c)))"
    by (simp only: cnt filter_all_length)
  have "stateAt t now (ch\<lparr>finalValue := - 1\<rparr>) \<noteq> charEndOfLifeState"
    by (simp add: stateAt_def)
  with pl fv eq iff show ?thesis by blast
qed

text \<open>The controller for "Go" after one step: one placeholder, three label characters counted.\<close>

theorem placeholder_never_end_of_life_witness:
  "newCyclingChars plainBlend False () 1 ''Go'' (tickingWorld 0) = Inr (goController, goWorld)
   \<and> placeholders (fst (run idleSpinner [stepCharsMsg] (goController, goWorld))) = 1
   \<and> fst (countEol 0 (chars (fst (run idleSpinner [stepCharsMsg] (goController, goWorld)))) 0 goWorld)
      = 3"
proof -
  let ?c = "fst (run idleSpinner [stepCharsMsg] (goController, goWorld))"
  have r: "run idleSpinner [stepCharsMsg] (goController, goWorld)
           = (?c, snd (run idleSpinner [stepCharsMsg] (goController, goWorld)))"
    by simp
  have e: "fst (countEol 0 (chars ?c) 0 goWorld) = 3"
    by (simp add: step_defs goController_def goWorld_def)
  from placeholder_never_end_of_life [OF newCyclingChars_go r] e newCyclingChars_go
  show ?thesis by simp
qed

section \<open>The start of the ellipsis\<close>

lemma flip_iff:
  assumes "shaped (fst s)" "\<not> ellipsisStarted (fst s)" "k < length ms"
  shows "(\<not> startedAfter su ms s k \<and> startedAfter su ms s (Suc k))
         \<longleftrightarrow> (resolvedAt su ms s k \<and> (\<forall>j<k. \<not> resolvedAt su ms s j))"
proof -
  have "startedAfter su ms s k \<longleftrightarrow> (\<exists>j<k. resolvedAt su ms s j)"
    using assms(3) by (intro started_iff [OF assms(1,2)]) simp
  with started_Suc [OF assms(1,3), of su] show ?thesis by blast
qed

lemma flip_unique:
  assumes "shaped (fst s)" "\<not> ellipsisStarted (fst s)"
    and "\<exists>j<length ms. resolvedAt su ms s j"
  shows "\<exists>!k. k < length ms \<and> \<not> startedAfter su ms s k \<and> startedAfter su ms s (Suc k)"
proof -
  define P where "P j = (j < length ms \<and> resolvedAt su ms s j)" for j
  define k where "k = (LEAST j. P j)"
  from assms(3) have "\<exists>j. P j" by (auto simp: P_def)
  then have Pk: "P k" unfolding k_def by (auto intro: LeastI)
  have least: "\<And>j. j < k \<Longrightarrow> \<not> P j" unfolding k_def by (rule not_less_Least)
  have kl: "k < length ms" and rk: "resolvedAt su ms s k" using Pk by (simp_all add: P_def)
  have first: "\<forall>j<k. \<not> resolvedAt su ms s j"
  proof (intro allI impI)
    fix j assume "j < k"
    with least [of j] kl show "\<not> resolvedAt su ms s j" by (simp add: P_def)
  qed
  show ?thesis
  proof (rule ex1I [of _ k])
    show "k < length ms \<and> \<not> startedAfter su ms s k \<and> startedAfter su ms s (Suc k)"
      using flip_iff [OF assms(1,2) kl, of su] kl rk first by blast
  next
    fix k'
    assume a: "k' < length ms \<and> \<not> startedAfter su ms s k' \<and> startedAfter su ms s (Suc k')"
    then have kl': "k' < length ms" by simp
    from a flip_iff [OF assms(1,2) kl', of su]
    have rk': "resolvedAt su ms s k'" and first': "\<forall>j<k'. \<not> resolvedAt su ms s j" by blast+
    show "k' = k"
    proof (rule ccontr)
      assume "k' \<noteq> k"
      then consider "k' < k" | "k < k'" by linarith
      then show False
      proof cases
        case 1
        with first rk' show False by blast
      next
        case 2
        with first' rk show False by blast
      qed
    qed
  qed
qed

text \<open>
  C4. For a controller the constructor returned and every sequence of messages: the
  flag \<^verbatim>\<open>ellipsisStarted\<close> is false at first; it changes from false to true at
  message \<open>k\<close> exactly when \<open>k\<close> is the first step of the characters that finds every
  label character (the placeholders excluded) at the end of its life; the command that
  starts the ellipsis is returned at that message and at no other; the flag never
  returns to false; at the end of the sequence the flag is set exactly when some step
  found the label resolved; and in a sequence with such a step the flag changes from
  false to true exactly once.
\<close>

theorem ellipsis_starts_at_first_resolved_step:
  assumes "newCyclingChars blend tc sp0 req lbl w0 = Inr (c0, w1)" and "k < length ms"
  shows "((\<not> startedAfter su ms (c0, w1) k \<and> startedAfter su ms (c0, w1) (Suc k))
            \<longleftrightarrow> (resolvedAt su ms (c0, w1) k \<and> (\<forall>j<k. \<not> resolvedAt su ms (c0, w1) j)))
     \<and> (ellipsisStartCmd \<in> set (cmdsAt su ms (c0, w1) k)
            \<longleftrightarrow> (resolvedAt su ms (c0, w1) k \<and> (\<forall>j<k. \<not> resolvedAt su ms (c0, w1) j)))
     \<and> (startedAfter su ms (c0, w1) k \<longrightarrow> startedAfter su ms (c0, w1) (Suc k))
     \<and> \<not> startedAfter su ms (c0, w1) 0
     \<and> (startedAfter su ms (c0, w1) (length ms)
            \<longleftrightarrow> (\<exists>j<length ms. resolvedAt su ms (c0, w1) j))
     \<and> ((\<exists>j<length ms. resolvedAt su ms (c0, w1) j) \<longrightarrow>
           (\<exists>!i. i < length ms \<and> \<not> startedAfter su ms (c0, w1) i
                   \<and> startedAfter su ms (c0, w1) (Suc i)))"
proof -
  note s = shaped_new [OF assms(1)]
  have sh: "shaped (fst (c0, w1))" and ns: "\<not> ellipsisStarted (fst (c0, w1))"
    using s(2,3) by simp_all
  have k: "startedAfter su ms (c0, w1) k \<longleftrightarrow> (\<exists>j<k. resolvedAt su ms (c0, w1) j)"
    using assms(2) by (intro started_iff [OF sh ns]) simp
  have n: "startedAfter su ms (c0, w1) (length ms) \<longleftrightarrow> (\<exists>j<length ms. resolvedAt su ms (c0, w1) j)"
    by (intro started_iff [OF sh ns]) simp
  have z: "\<not> startedAfter su ms (c0, w1) 0"
    using ns by (simp add: startedAfter_def)
  note st = started_Suc [OF sh assms(2), of su]
  note cm = cmd_at [OF sh, of su ms k]
  have first5: "((\<not> startedAfter su ms (c0, w1) k \<and> startedAfter su ms (c0, w1) (Suc k))
            \<longleftrightarrow> (resolvedAt su ms (c0, w1) k \<and> (\<forall>j<k. \<not> resolvedAt su ms (c0, w1) j)))
     \<and> (ellipsisStartCmd \<in> set (cmdsAt su ms (c0, w1) k)
            \<longleftrightarrow> (resolvedAt su ms (c0, w1) k \<and> (\<forall>j<k. \<not> resolvedAt su ms (c0, w1) j)))
     \<and> (startedAfter su ms (c0, w1) k \<longrightarrow> startedAfter su ms (c0, w1) (Suc k))
     \<and> \<not> startedAfter su ms (c0, w1) 0
     \<and> (startedAfter su ms (c0, w1) (length ms)
            \<longleftrightarrow> (\<exists>j<length ms. resolvedAt su ms (c0, w1) j))"
    using k n z st cm by blast
  have u: "(\<exists>j<length ms. resolvedAt su ms (c0, w1) j) \<longrightarrow>
           (\<exists>!i. i < length ms \<and> \<not> startedAfter su ms (c0, w1) i
                   \<and> startedAfter su ms (c0, w1) (Suc i))"
    using flip_unique [OF sh ns, of ms su] by blast
  from first5 u show ?thesis by (intro conjI) (elim conjE, assumption)+
qed

text \<open>The controller for "Go" with all delays zero: the first step starts the ellipsis.\<close>

theorem ellipsis_starts_at_first_resolved_step_witness:
  "newCyclingChars plainBlend False () 1 ''Go'' (tickingWorld 0) = Inr (goController, goWorld)
   \<and> (0::nat) < length [stepCharsMsg, stepCharsMsg]
   \<and> resolvedAt idleSpinner [stepCharsMsg, stepCharsMsg] (goController, goWorld) 0
   \<and> \<not> startedAfter idleSpinner [stepCharsMsg, stepCharsMsg] (goController, goWorld) 0
   \<and> startedAfter idleSpinner [stepCharsMsg, stepCharsMsg] (goController, goWorld) (Suc 0)
   \<and> ellipsisStartCmd \<in> set (cmdsAt idleSpinner [stepCharsMsg, stepCharsMsg] (goController, goWorld) 0)"
proof -
  have r: "resolvedAt idleSpinner [stepCharsMsg, stepCharsMsg] (goController, goWorld) 0"
    by (simp add: step_defs goController_def goWorld_def)
  have l: "(0::nat) < length [stepCharsMsg, stepCharsMsg]" by simp
  from ellipsis_starts_at_first_resolved_step [OF newCyclingChars_go l, of idleSpinner]
  have "(\<not> startedAfter idleSpinner [stepCharsMsg, stepCharsMsg] (goController, goWorld) 0
          \<and> startedAfter idleSpinner [stepCharsMsg, stepCharsMsg] (goController, goWorld) (Suc 0))
         = (resolvedAt idleSpinner [stepCharsMsg, stepCharsMsg] (goController, goWorld) 0
            \<and> (\<forall>j<0. \<not> resolvedAt idleSpinner [stepCharsMsg, stepCharsMsg] (goController, goWorld) j))"
    and "(ellipsisStartCmd \<in> set (cmdsAt idleSpinner [stepCharsMsg, stepCharsMsg] (goController, goWorld) 0))
         = (resolvedAt idleSpinner [stepCharsMsg, stepCharsMsg] (goController, goWorld) 0
            \<and> (\<forall>j<0. \<not> resolvedAt idleSpinner [stepCharsMsg, stepCharsMsg] (goController, goWorld) j))"
    by blast+
  with r l newCyclingChars_go show ?thesis by simp
qed

text \<open>
  Until the label has resolved the flag is false: the label "a" gets an initial delay of
  420 ms, and two steps taken within the first 400 ms leave the flag as it was.
\<close>

lemma ellipsis_not_started_before_resolution:
  "newCyclingChars plainBlend False () 0 ''a'' (tickingWorld 7) = Inr (slowController, slowWorld)
   \<and> \<not> startedAfter idleSpinner [stepCharsMsg, stepCharsMsg] (slowController, slowWorld) 0
   \<and> \<not> startedAfter idleSpinner [stepCharsMsg, stepCharsMsg] (slowController, slowWorld) 1
   \<and> \<not> startedAfter idleSpinner [stepCharsMsg, stepCharsMsg] (slowController, slowWorld) 2"
  using newCyclingChars_slow
  by (simp add: step_defs slowController_def slowWorld_def)

section \<open>The ramp\<close>

text \<open>
  The ramp has \<open>length\<close> colours and colour \<open>i\<close> is the library's blend for \<open>i\<close> and
  \<open>length\<close>. What that blend is (a quotient and a colour space conversion in floating
  point) is outside this model.
\<close>

lemma makeGradientRamp_length:
  "0 \<le> len \<Longrightarrow>
   \<exists>cs. makeGradientRamp blend len = Inr cs \<and> length cs = nat len
        \<and> (\<forall>i < nat len. cs ! i = blend (int i) len)"
  by (simp add: makeGradientRamp_def)

end
